theory Spec2Isabelle
  imports Main "HOL-Library.AList" "HOL-Library.Multiset"
    "HOL-Library.Char_ord" "HOL-Library.List_Lexorder"
begin

section \<open>Python values and exceptions\<close>

text \<open>
  The script \<^verbatim>\<open>os-stats.py\<close> works on the values that \<^verbatim>\<open>json\<close> decoding produces.
  A dictionary is an association list read through \<^const>\<open>map_of\<close> (the first binding of a
  key is the dictionary's), Python's \<^verbatim>\<open>None\<close> is \<open>JNull\<close>. The counters of the
  contribution API are integers, so a number is an unbounded \<^typ>\<open>int\<close>.
\<close>

datatype json =
    JNull
  | JBool bool
  | JInt int
  | JStr string
  | JArr "json list"
  | JObj "(string \<times> json) list"

type_synonym pydict = "(string \<times> json) list"

text \<open>
  The exceptions the script can raise. \<open>FileReadExit p\<close> is the handler of
  \<^verbatim>\<open>get_tokens\<close>: it prints \<^verbatim>\<open>Error reading file `p`: ...\<close> and calls
  \<^verbatim>\<open>sys.exit(1)\<close>.
\<close>

datatype error = KeyError | TypeError | ValueError | AttributeError | FileReadExit string

text \<open>Truth value testing, as in \<^verbatim>\<open>if ret:\<close>.\<close>

fun truthy :: "json \<Rightarrow> bool" where
  "truthy JNull = False"
| "truthy (JBool b) = b"
| "truthy (JInt n) = (n \<noteq> 0)"
| "truthy (JStr s) = (s \<noteq> [])"
| "truthy (JArr xs) = (xs \<noteq> [])"
| "truthy (JObj d) = (d \<noteq> [])"

text \<open>\<^verbatim>\<open>for key in d\<close> visits every key once; \<^verbatim>\<open>d.values()\<close> are the values of those keys.\<close>

definition dict_keys :: "pydict \<Rightarrow> string list" where
  "dict_keys d = remdups (map fst d)"

definition dict_values :: "pydict \<Rightarrow> json list" where
  "dict_values d = map (\<lambda>k. the (map_of d k)) (dict_keys d)"

text \<open>\<^verbatim>\<open>obj[key]\<close> for a string key: only a dictionary can be indexed by a string.\<close>

fun py_getitem :: "json \<Rightarrow> string \<Rightarrow> error + json" where
  "py_getitem (JObj d) k = (case map_of d k of None \<Rightarrow> Inl KeyError | Some v \<Rightarrow> Inr v)"
| "py_getitem _ k = Inl TypeError"

text \<open>\<^verbatim>\<open>obj[key] = v\<close> for a string key.\<close>

fun py_setitem :: "json \<Rightarrow> string \<Rightarrow> json \<Rightarrow> error + json" where
  "py_setitem (JObj d) k v = Inr (JObj (AList.update k v d))"
| "py_setitem _ k v = Inl TypeError"

text \<open>\<^verbatim>\<open>obj.values()\<close>: only a dictionary has the method.\<close>

fun py_values :: "json \<Rightarrow> error + json list" where
  "py_values (JObj d) = Inr (dict_values d)"
| "py_values _ = Inl AttributeError"

text \<open>
  \<^verbatim>\<open>a + b\<close>: integers and booleans add as integers, strings and lists concatenate,
  every other combination is a \<^verbatim>\<open>TypeError\<close>.
\<close>

fun py_add :: "json \<Rightarrow> json \<Rightarrow> error + json" where
  "py_add (JInt a) (JInt b) = Inr (JInt (a + b))"
| "py_add (JInt a) (JBool b) = Inr (JInt (a + of_bool b))"
| "py_add (JBool a) (JInt b) = Inr (JInt (of_bool a + b))"
| "py_add (JBool a) (JBool b) = Inr (JInt (of_bool a + of_bool b))"
| "py_add (JStr a) (JStr b) = Inr (JStr (a @ b))"
| "py_add (JArr a) (JArr b) = Inr (JArr (a @ b))"
| "py_add _ _ = Inl TypeError"

text \<open>\<^verbatim>\<open>sum(vs)\<close>: starts from the integer 0 and adds the items from left to right.\<close>

fun py_sum_from :: "json \<Rightarrow> json list \<Rightarrow> error + json" where
  "py_sum_from acc [] = Inr acc"
| "py_sum_from acc (v # vs) =
     (case py_add acc v of Inl e \<Rightarrow> Inl e | Inr acc' \<Rightarrow> py_sum_from acc' vs)"

definition py_sum :: "json list \<Rightarrow> error + json" where
  "py_sum vs = py_sum_from (JInt 0) vs"

section \<open>Aggregation of contribution records\<close>

text \<open>The keys of the dictionary that \<^verbatim>\<open>__get_aggregate_contributions\<close> starts from.\<close>

definition known_keys :: "string list" where
  "known_keys =
     [''change_request_count'', ''commit_count'', ''completed_blueprint_count'',
      ''drafted_blueprint_count'', ''email_count'', ''filed_bug_count'', ''loc'',
      ''marks'', ''patch_set_count'', ''resolved_bug_count'',
      ''abandoned_change_requests_count'', ''translations'']"

definition zero_record :: pydict where
  "zero_record =
     [(''change_request_count'', JInt 0),
      (''commit_count'', JInt 0),
      (''completed_blueprint_count'', JInt 0),
      (''drafted_blueprint_count'', JInt 0),
      (''email_count'', JInt 0),
      (''filed_bug_count'', JInt 0),
      (''loc'', JInt 0),
      (''marks'', JInt 0),
      (''patch_set_count'', JInt 0),
      (''resolved_bug_count'', JInt 0),
      (''abandoned_change_requests_count'', JInt 0),
      (''translations'', JInt 0)]"

text \<open>
  One pass of the inner loop body \<^verbatim>\<open>ret[key] = ret[key] + contrib[key]\<close>: the running
  total is read first (a \<^verbatim>\<open>KeyError\<close> when \<open>ret\<close> has no such key), then the record's
  value, then the two are added and the total is stored.
\<close>

definition add_key :: "pydict \<Rightarrow> string \<Rightarrow> pydict \<Rightarrow> error + pydict" where
  "add_key contrib key ret =
     (case map_of ret key of
        None \<Rightarrow> Inl KeyError
      | Some a \<Rightarrow>
          (case map_of contrib key of
             None \<Rightarrow> Inl KeyError
           | Some b \<Rightarrow>
               (case py_add a b of
                  Inl e \<Rightarrow> Inl e
                | Inr v \<Rightarrow> Inr (AList.update key v ret))))"

text \<open>The inner loop \<^verbatim>\<open>for key in contrib\<close>.\<close>

fun add_keys :: "pydict \<Rightarrow> string list \<Rightarrow> pydict \<Rightarrow> error + pydict" where
  "add_keys contrib [] ret = Inr ret"
| "add_keys contrib (key # keys) ret =
     (case add_key contrib key ret of
        Inl e \<Rightarrow> Inl e
      | Inr ret' \<Rightarrow> add_keys contrib keys ret')"

text \<open>The outer loop \<^verbatim>\<open>for contrib in contrib_list\<close>.\<close>

fun add_contribs :: "pydict list \<Rightarrow> pydict \<Rightarrow> error + pydict" where
  "add_contribs [] ret = Inr ret"
| "add_contribs (contrib # rest) ret =
     (case add_keys contrib (dict_keys contrib) ret of
        Inl e \<Rightarrow> Inl e
      | Inr ret' \<Rightarrow> add_contribs rest ret')"

definition get_aggregate_contributions :: "pydict list \<Rightarrow> error + pydict" where
  "get_aggregate_contributions contrib_list = add_contribs contrib_list zero_record"

text \<open>
  What the aggregation theorems speak about: the integer a value counts as when it is
  added to an integer total (Python's \<^verbatim>\<open>True\<close> is 1 and \<^verbatim>\<open>False\<close> is 0), a record's
  value for a key with an absent key counting 0, the record that holds a given total for
  every known key, and the two conditions on a record: its keys are known keys, its
  values are numbers.
\<close>

fun num_of :: "json \<Rightarrow> int option" where
  "num_of (JInt n) = Some n"
| "num_of (JBool b) = Some (of_bool b)"
| "num_of _ = None"

definition field_int :: "pydict \<Rightarrow> string \<Rightarrow> int" where
  "field_int r k =
     (case map_of r k of
        None \<Rightarrow> 0
      | Some v \<Rightarrow> (case num_of v of None \<Rightarrow> 0 | Some n \<Rightarrow> n))"

definition totals_record :: "(string \<Rightarrow> int) \<Rightarrow> pydict" where
  "totals_record f = map (\<lambda>k. (k, JInt (f k))) known_keys"

definition keys_known :: "pydict \<Rightarrow> bool" where
  "keys_known r = list_all (\<lambda>k. k \<in> set known_keys) (dict_keys r)"

definition values_numeric :: "pydict \<Rightarrow> bool" where
  "values_numeric r = list_all (\<lambda>v. num_of v \<noteq> None) (dict_values r)"

subsection \<open>The same function on a store of dictionary objects\<close>

text \<open>
  Python dictionaries are mutable objects and \<^verbatim>\<open>contrib_list\<close> holds references to them.
  To speak about what the call changes, the function is written a second time over a
  store: an object's address is its index in the list of all dictionary objects,
  \<^verbatim>\<open>dict(...)\<close> allocates the next index, \<^verbatim>\<open>ret[key] = v\<close> overwrites the object at
  \<open>ret\<close>. A reference held by the program points to an allocated object, so the
  theorems take every address of \<open>contrib_list\<close> below \<open>length h\<close>. The store is
  returned in every case, also when the call raises.
\<close>

type_synonym addr = nat
type_synonym heap = "pydict list"

definition new_dict :: "pydict \<Rightarrow> heap \<Rightarrow> addr \<times> heap" where
  "new_dict d h = (length h, h @ [d])"

fun add_keys_st :: "addr \<Rightarrow> string list \<Rightarrow> addr \<Rightarrow> heap \<Rightarrow> error option \<times> heap" where
  "add_keys_st contrib [] ret h = (None, h)"
| "add_keys_st contrib (key # keys) ret h =
     (case map_of (h ! ret) key of
        None \<Rightarrow> (Some KeyError, h)
      | Some a \<Rightarrow>
          (case map_of (h ! contrib) key of
             None \<Rightarrow> (Some KeyError, h)
           | Some b \<Rightarrow>
               (case py_add a b of
                  Inl e \<Rightarrow> (Some e, h)
                | Inr v \<Rightarrow>
                    add_keys_st contrib keys ret (h[ret := AList.update key v (h ! ret)]))))"

fun add_contribs_st :: "addr list \<Rightarrow> addr \<Rightarrow> heap \<Rightarrow> error option \<times> heap" where
  "add_contribs_st [] ret h = (None, h)"
| "add_contribs_st (contrib # rest) ret h =
     (case add_keys_st contrib (dict_keys (h ! contrib)) ret h of
        (Some e, h') \<Rightarrow> (Some e, h')
      | (None, h') \<Rightarrow> add_contribs_st rest ret h')"

definition get_aggregate_contributions_st :: "addr list \<Rightarrow> heap \<Rightarrow> (error + addr) \<times> heap" where
  "get_aggregate_contributions_st contrib_list h =
     (case new_dict zero_record h of
        (ret, h0) \<Rightarrow>
          (case add_contribs_st contrib_list ret h0 of
             (Some e, h') \<Rightarrow> (Inl e, h')
           | (None, h') \<Rightarrow> (Inr ret, h')))"

section \<open>Strings\<close>

text \<open>The characters \<^verbatim>\<open>str.strip()\<close> removes: space, tab, line feed, VT, FF, CR.\<close>

definition is_space :: "char \<Rightarrow> bool" where
  "is_space c = (c \<in> set [CHR '' '', CHR 0x09, CHR 0x0A, CHR 0x0B, CHR 0x0C, CHR 0x0D])"

definition py_strip :: "string \<Rightarrow> string" where
  "py_strip s = rev (dropWhile is_space (rev (dropWhile is_space s)))"

text \<open>\<^verbatim>\<open>s.split(sep)\<close> for a one-character separator; the result is never empty.\<close>

fun py_split :: "char \<Rightarrow> string \<Rightarrow> string list" where
  "py_split sep [] = [[]]"
| "py_split sep (c # cs) =
     (if c = sep then [] # py_split sep cs
      else (case py_split sep cs of
              [] \<Rightarrow> [[c]]
            | w # ws \<Rightarrow> (c # w) # ws))"

text \<open>\<^verbatim>\<open>s.find(c)\<close>: the index of the first occurrence, or -1.\<close>

definition py_find :: "char \<Rightarrow> string \<Rightarrow> int" where
  "py_find c s = (if c \<in> set s then int (length (takeWhile (\<lambda>x. x \<noteq> c) s)) else - 1)"

text \<open>\<^verbatim>\<open>s[0:j]\<close>: a negative end counts from the end of the string and stops at 0.\<close>

definition py_slice_to :: "string \<Rightarrow> int \<Rightarrow> string" where
  "py_slice_to s j = take (nat (if j < 0 then int (length s) + j else j)) s"

text \<open>\<^verbatim>\<open>sep.join(xs)\<close>.\<close>

fun py_join :: "string \<Rightarrow> string list \<Rightarrow> string" where
  "py_join sep [] = []"
| "py_join sep [x] = x"
| "py_join sep (x # y # ys) = x @ sep @ py_join sep (y # ys)"

section \<open>Users from the file of email addresses\<close>

text \<open>
  The files the script can read: a path has a content or cannot be read. The path is
  the one \<^verbatim>\<open>get_tokens\<close> is called with (it is resolved against the script's directory).
\<close>

type_synonym files = "string \<Rightarrow> string option"

text \<open>
  The first item of \<^verbatim>\<open>for line in file_stream\<close>: the text up to and with the first line
  feed; an empty file has no line.
\<close>

definition first_line :: "string \<Rightarrow> string option" where
  "first_line content =
     (if content = [] then None
      else Some (takeWhile (\<lambda>c. c \<noteq> CHR 0x0A) content @
                 (if CHR 0x0A \<in> set content then [CHR 0x0A] else [])))"

text \<open>
  \<^verbatim>\<open>get_tokens\<close>: \<open>tokens\<close> stays \<^verbatim>\<open>None\<close> when the file has no line; a file that cannot be
  read ends the run.
\<close>

definition get_tokens :: "files \<Rightarrow> string \<Rightarrow> error + string list option" where
  "get_tokens fs path =
     (case fs path of
        None \<Rightarrow> Inl (FileReadExit path)
      | Some content \<Rightarrow>
          Inr (case first_line content of
                 None \<Rightarrow> None
               | Some line \<Rightarrow> Some (py_split CHR '','' line)))"

text \<open>
  \<^verbatim>\<open>dict((key.strip(), value.strip()) for (key, value) in ...)\<close>: an item that does not
  unpack into two parts is a \<^verbatim>\<open>ValueError\<close>, a later pair overrides an earlier one with
  the same key.
\<close>

fun user_map_from :: "string list list \<Rightarrow> (string \<times> string) list \<Rightarrow> error + (string \<times> string) list" where
  "user_map_from [] m = Inr m"
| "user_map_from (parts # rest) m =
     (case parts of
        [key, value] \<Rightarrow> user_map_from rest (AList.update (py_strip key) (py_strip value) m)
      | _ \<Rightarrow> Inl ValueError)"

definition get_eff_user :: "files \<Rightarrow> string \<Rightarrow> string option \<Rightarrow> error + string" where
  "get_eff_user fs user map_path =
     (case map_path of
        None \<Rightarrow> Inr user
      | Some mp \<Rightarrow>
          if mp = [] then Inr user
          else
            (case get_tokens fs mp of
               Inl e \<Rightarrow> Inl e
             | Inr None \<Rightarrow> Inl TypeError
             | Inr (Some user_map_list) \<Rightarrow>
                 (case user_map_from (map (py_split CHR '':'') user_map_list) [] of
                    Inl e \<Rightarrow> Inl e
                  | Inr user_map \<Rightarrow>
                      Inr (case map_of user_map user of Some u \<Rightarrow> u | None \<Rightarrow> user))))"

text \<open>\<^verbatim>\<open>email[0:email.find('@')].strip()\<close>.\<close>

definition email_user :: "string \<Rightarrow> string" where
  "email_user email = py_strip (py_slice_to email (py_find CHR ''@'' email))"

text \<open>The list comprehension over \<open>emails\<close>, left to right.\<close>

fun eff_users :: "files \<Rightarrow> string option \<Rightarrow> string list \<Rightarrow> error + string list" where
  "eff_users fs map_path [] = Inr []"
| "eff_users fs map_path (email # emails) =
     (case get_eff_user fs (email_user email) map_path of
        Inl e \<Rightarrow> Inl e
      | Inr u \<Rightarrow>
          (case eff_users fs map_path emails of
             Inl e \<Rightarrow> Inl e
           | Inr us \<Rightarrow> Inr (u # us)))"

text \<open>
  \<^verbatim>\<open>list(set(...))\<close> keeps one copy of each user; Python leaves the order of the result
  open, the model takes the order of \<^const>\<open>remdups\<close>. Iterating over \<^verbatim>\<open>None\<close> (an empty
  file) is a \<^verbatim>\<open>TypeError\<close>.
\<close>

definition get_users_from_file :: "files \<Rightarrow> string \<Rightarrow> string option \<Rightarrow> error + string list" where
  "get_users_from_file fs path map_path =
     (case get_tokens fs path of
        Inl e \<Rightarrow> Inl e
      | Inr None \<Rightarrow> Inl TypeError
      | Inr (Some emails) \<Rightarrow>
          (case eff_users fs map_path emails of
             Inl e \<Rightarrow> Inl e
           | Inr users \<Rightarrow> Inr (remdups users)))"

text \<open>
  What the theorem about the users speaks about. \<open>file_lists fs path items\<close>: the first
  line of the file is the comma-delimited list of the \<open>items\<close>.
  \<open>alias_file_lists fs map_path pairs\<close>: no alias file is given and there are no pairs,
  or the first line of the alias file lists the tokens \<^verbatim>\<open>prefix:canonical-id\<close> of the
  \<open>pairs\<close>, no two of them with the same trimmed prefix. \<open>alias_of pairs prefix\<close>: the
  canonical id of a prefix that the pairs map, the prefix itself otherwise.
\<close>

definition file_lists :: "files \<Rightarrow> string \<Rightarrow> string list \<Rightarrow> bool" where
  "file_lists fs path items =
     (items \<noteq> [] \<and> list_all (\<lambda>x. CHR '','' \<notin> set x) items \<and>
      (case fs path of
         None \<Rightarrow> False
       | Some content \<Rightarrow> first_line content = Some (py_join '','' items)))"

definition alias_file_lists :: "files \<Rightarrow> string option \<Rightarrow> (string \<times> string) list \<Rightarrow> bool" where
  "alias_file_lists fs map_path pairs =
     (case map_path of
        None \<Rightarrow> pairs = []
      | Some mp \<Rightarrow>
          if mp = [] then pairs = []
          else file_lists fs mp (map (\<lambda>(p, c). p @ '':'' @ c) pairs) \<and>
               list_all (\<lambda>(p, c). CHR '':'' \<notin> set p \<and> CHR '':'' \<notin> set c) pairs \<and>
               distinct (map (\<lambda>(p, c). py_strip p) pairs))"

definition alias_of :: "(string \<times> string) list \<Rightarrow> string \<Rightarrow> string" where
  "alias_of pairs prefix =
     (case map_of (map (\<lambda>(p, c). (py_strip p, py_strip c)) pairs) prefix of
        Some c \<Rightarrow> c
      | None \<Rightarrow> prefix)"

section \<open>Contribution of one user\<close>

text \<open>
  What \<^verbatim>\<open>requests.get(url).json()\<close> does for a URL: the request raises, the body is not
  JSON (\<^verbatim>\<open>.json()\<close> raises), or the body decodes to a value.
\<close>

datatype reply = NetworkError | MalformedBody | Parsed json

definition STACKALYTICS_BASE_URL :: string where
  "STACKALYTICS_BASE_URL = ''http://stackalytics.com''"

definition CONTRIB_URL :: string where
  "CONTRIB_URL = STACKALYTICS_BASE_URL @ ''/api/1.0/contribution''"

definition contrib_url :: "string \<Rightarrow> string option \<Rightarrow> string" where
  "contrib_url user release =
     (let url = CONTRIB_URL @ ''?user_id='' @ user
      in case release of
           None \<Rightarrow> url
         | Some r \<Rightarrow> if r = [] then url else url @ ''&project_type=openstack&release='' @ r)"

text \<open>
  \<^verbatim>\<open>__get_contribution_for_user\<close>. Only the request, the decoding and the lookup of
  \<^verbatim>\<open>'contribution'\<close> are inside the \<^verbatim>\<open>try\<close>; the three steps of
  \<^verbatim>\<open>ret['marks'] = sum(ret['marks'].values())\<close> are after it.
\<close>

definition get_contribution_for_user :: "(string \<Rightarrow> reply) \<Rightarrow> string \<Rightarrow> string option \<Rightarrow> error + json" where
  "get_contribution_for_user remote user release =
     (let url = contrib_url user release;
          ret = (case remote url of
                   Parsed body \<Rightarrow>
                     (case py_getitem body ''contribution'' of
                        Inl e \<Rightarrow> JNull
                      | Inr c \<Rightarrow> c)
                 | _ \<Rightarrow> JNull)
      in if truthy ret then
           (case py_getitem ret ''marks'' of
              Inl e \<Rightarrow> Inl e
            | Inr marks \<Rightarrow>
                (case py_values marks of
                   Inl e \<Rightarrow> Inl e
                 | Inr vs \<Rightarrow>
                     (case py_sum vs of
                        Inl e \<Rightarrow> Inl e
                      | Inr votes \<Rightarrow> py_setitem ret ''marks'' votes)))
         else Inr ret)"

text \<open>
  The statement inside the \<^verbatim>\<open>try\<close> raises: the request fails, the body is not JSON, or
  the decoded value has no item \<^verbatim>\<open>'contribution'\<close>.
\<close>

fun fetch_raises :: "reply \<Rightarrow> bool" where
  "fetch_raises NetworkError = True"
| "fetch_raises MalformedBody = True"
| "fetch_raises (Parsed body) = (case py_getitem body ''contribution'' of Inl e \<Rightarrow> True | Inr c \<Rightarrow> False)"

section \<open>Display\<close>

text \<open>
  Standard output is a list of \<^verbatim>\<open>print\<close> calls: a string, or the text
  \<^verbatim>\<open>json.dumps(x, indent=4, sort_keys=True)\<close> of a value \<open>x\<close> (kept as the value).
  A display routine returns what it printed and the exception that ended it, if any.
\<close>

datatype out = Print string | PrintJson json

definition no_data_message :: string where
  "no_data_message = ''Could not find any OpenStack contribution data for that user.''"

definition display_stats :: "json \<Rightarrow> out list" where
  "display_stats contrib_data =
     (if truthy contrib_data then [Print ''Contributions:'', PrintJson contrib_data]
      else [Print no_data_message])"

definition display_user_stats :: "(string \<Rightarrow> reply) \<Rightarrow> string \<Rightarrow> string option \<Rightarrow> out list \<times> error option" where
  "display_user_stats remote user release =
     (case get_contribution_for_user remote user release of
        Inl e \<Rightarrow> ([], Some e)
      | Inr contrib_data \<Rightarrow> (display_stats contrib_data, None))"

text \<open>The loop of \<^verbatim>\<open>__display_aggregate_stats\<close> over the users.\<close>

fun collect_contribs :: "(string \<Rightarrow> error + json) \<Rightarrow> string list \<Rightarrow> string list \<Rightarrow> json list \<Rightarrow>
    error + (string list \<times> json list)" where
  "collect_contribs fetch [] unknown contribs = Inr (unknown, contribs)"
| "collect_contribs fetch (user # users) unknown contribs =
     (case fetch user of
        Inl e \<Rightarrow> Inl e
      | Inr contrib \<Rightarrow>
          if \<not> truthy contrib then collect_contribs fetch users (unknown @ [user]) contribs
          else collect_contribs fetch users unknown (contribs @ [contrib]))"

definition dashes :: string where
  "dashes = ''----------------------------------------''"

definition not_found_banner :: "string list \<Rightarrow> string" where
  "not_found_banner unknown =
     dashes @ [CHR 0x0A] @
     ''Users not found on review.openstack.org:'' @ [CHR 0x0A] @
     dashes @ [CHR 0x0A] @
     py_join '', '' unknown @ [CHR 0x0A] @
     dashes"

text \<open>
  The aggregation function takes dictionaries. Every value the loop collects is one
  (lemma \<open>collected_are_dicts\<close> below), so the second equation is never used.
\<close>

fun dict_of :: "json \<Rightarrow> pydict" where
  "dict_of (JObj d) = d"
| "dict_of _ = []"

definition display_aggregate_stats ::
    "files \<Rightarrow> (string \<Rightarrow> reply) \<Rightarrow> string \<Rightarrow> string option \<Rightarrow> string option \<Rightarrow> out list \<times> error option" where
  "display_aggregate_stats fs remote path map_path release =
     (case get_users_from_file fs path map_path of
        Inl e \<Rightarrow> ([], Some e)
      | Inr users \<Rightarrow>
          (case collect_contribs (\<lambda>user. get_contribution_for_user remote user release) users [] [] of
             Inl e \<Rightarrow> ([], Some e)
           | Inr (unknown, contribs) \<Rightarrow>
               (let banner = Print (not_found_banner (sort unknown))
                in case get_aggregate_contributions (map dict_of contribs) of
                     Inl e \<Rightarrow> ([banner], Some e)
                   | Inr agg \<Rightarrow> (banner # display_stats (JObj agg), None))))"

section \<open>Example inputs\<close>

text \<open>Concrete records, stores, files and replies at which the theorems below are instantiated.\<close>

definition ex_commits :: pydict where
  "ex_commits = [(''commit_count'', JInt 2), (''loc'', JInt 10)]"

definition ex_more_commits :: pydict where
  "ex_more_commits = [(''commit_count'', JInt 3), (''loc'', JInt 5)]"

definition ex_unknown_key :: pydict where
  "ex_unknown_key = [(''loc'', JInt 10), (''karma'', JInt 2)]"

definition ex_heap :: heap where
  "ex_heap = [[(''commit_count'', JInt 2), (''loc'', JInt 10)],
              [(''commit_count'', JInt 3), (''loc'', JInt 5)]]"

definition ex_files :: files where
  "ex_files p =
     (if p = ''emails.txt'' then Some ''a@x.com,b@y.com,a@x.com''
      else if p = ''map.txt'' then Some ''a:alice-id''
      else if p = ''mixed.txt'' then Some ''alice,bob@x.com''
      else None)"

definition ex_remote_down :: "string \<Rightarrow> reply" where
  "ex_remote_down url = NetworkError"

definition ex_remote_no_field :: "string \<Rightarrow> reply" where
  "ex_remote_no_field url = Parsed (JObj [(''error'', JStr ''not found'')])"

definition ex_remote_no_marks :: "string \<Rightarrow> reply" where
  "ex_remote_no_marks url = Parsed (JObj [(''contribution'', JObj [(''commit_count'', JInt 4)])])"

definition ex_remote_empty :: "string \<Rightarrow> reply" where
  "ex_remote_empty url = Parsed (JObj [(''contribution'', JObj [])])"

definition ex_marks :: pydict where
  "ex_marks = [(''-1'', JInt 2), (''1'', JInt 5)]"

definition ex_raw :: pydict where
  "ex_raw = [(''commit_count'', JInt 4), (''marks'', JObj ex_marks), (''loc'', JInt 100)]"

definition ex_remote_jdoe :: "string \<Rightarrow> reply" where
  "ex_remote_jdoe url = Parsed (JObj [(''contribution'', JObj ex_raw)])"

section \<open>Properties of the aggregation\<close>

lemma py_add_int: "py_add (JInt a) v = (case num_of v of None \<Rightarrow> Inl TypeError | Some n \<Rightarrow> Inr (JInt (a + n)))"
  by (cases v) simp_all

lemma update_tabulated:
  "k \<in> set ks \<Longrightarrow> distinct ks \<Longrightarrow>
    AList.update k v (map (\<lambda>x. (x, g x)) ks) = map (\<lambda>x. (x, (g(k := v)) x)) ks"
  by (induction ks) auto

lemma map_of_tabulated:
  "map_of (map (\<lambda>x. (x, g x)) ks) k = (if k \<in> set ks then Some (g k) else None)"
  by (induction ks) auto

lemma distinct_known_keys: "distinct known_keys"
  by (simp add: known_keys_def)

lemma update_totals_record:
  "k \<in> set known_keys \<Longrightarrow>
    AList.update k (JInt n) (totals_record f) = totals_record (f(k := n))"
  unfolding totals_record_def
  using update_tabulated [of k known_keys "JInt n" "\<lambda>x. JInt (f x)"] distinct_known_keys
  by (simp add: fun_upd_def if_distrib cong: if_cong)

lemma map_of_totals_record:
  "map_of (totals_record f) k = (if k \<in> set known_keys then Some (JInt (f k)) else None)"
  by (simp add: totals_record_def map_of_tabulated)

lemma zero_record_totals: "zero_record = totals_record (\<lambda>k. 0)"
  by (simp add: zero_record_def totals_record_def known_keys_def)

lemma add_key_known:
  assumes "k \<in> set known_keys" and "map_of contrib k = Some v"
  shows "add_key contrib k (totals_record f) =
    (case num_of v of None \<Rightarrow> Inl TypeError | Some n \<Rightarrow> Inr (totals_record (f(k := f k + n))))"
  using assms
  by (simp add: add_key_def map_of_totals_record py_add_int update_totals_record
      split: option.splits)

lemma add_key_unknown:
  "k \<notin> set known_keys \<Longrightarrow> add_key contrib k (totals_record f) = Inl KeyError"
  by (simp add: add_key_def map_of_totals_record)

lemma add_keys_known:
  assumes "distinct ks" and "set ks \<subseteq> set known_keys" and "set ks \<subseteq> dom (map_of contrib)"
  shows "add_keys contrib ks (totals_record f) =
    (if \<forall>k\<in>set ks. num_of (the (map_of contrib k)) \<noteq> None
     then Inr (totals_record (\<lambda>k. f k + (if k \<in> set ks then field_int contrib k else 0)))
     else Inl TypeError)"
  using assms
proof (induction ks arbitrary: f)
  case Nil
  then show ?case by simp
next
  case (Cons k ks)
  from Cons.prems obtain v where v: "map_of contrib k = Some v" by auto
  show ?case
  proof (cases "num_of v")
    case None
    with v Cons.prems show ?thesis by (simp add: add_key_known)
  next
    case (Some n)
    have eq: "(\<lambda>x. (f(k := f k + n)) x + (if x \<in> set ks then field_int contrib x else 0))
        = (\<lambda>x. f x + (if x \<in> set (k # ks) then field_int contrib x else 0))"
      using Cons.prems(1) v Some by (auto simp: field_int_def fun_eq_iff)
    from Cons.prems have "add_keys contrib ks (totals_record (f(k := f k + n))) =
      (if \<forall>k\<in>set ks. num_of (the (map_of contrib k)) \<noteq> None
       then Inr (totals_record (\<lambda>x. (f(k := f k + n)) x + (if x \<in> set ks then field_int contrib x else 0)))
       else Inl TypeError)"
      by (intro Cons.IH) auto
    with v Some Cons.prems eq show ?thesis by (simp add: add_key_known)
  qed
qed

lemma set_dict_keys: "set (dict_keys r) = dom (map_of r)"
  by (simp add: dict_keys_def dom_map_of_conv_image_fst)

lemma distinct_dict_keys: "distinct (dict_keys r)"
  by (simp add: dict_keys_def)

lemma field_int_absent: "k \<notin> set (dict_keys r) \<Longrightarrow> field_int r k = 0"
  by (auto simp: set_dict_keys field_int_def split: option.splits)

lemma values_numeric_iff:
  "values_numeric r \<longleftrightarrow> (\<forall>k\<in>set (dict_keys r). num_of (the (map_of r k)) \<noteq> None)"
  by (simp add: values_numeric_def dict_values_def list_all_iff)

lemma keys_known_iff: "keys_known r \<longleftrightarrow> set (dict_keys r) \<subseteq> set known_keys"
  by (auto simp: keys_known_def list_all_iff)

lemma add_record_known:
  assumes "keys_known r"
  shows "add_keys r (dict_keys r) (totals_record f) =
    (if values_numeric r then Inr (totals_record (\<lambda>k. f k + field_int r k)) else Inl TypeError)"
proof -
  have "(\<lambda>k. f k + (if k \<in> set (dict_keys r) then field_int r k else 0)) = (\<lambda>k. f k + field_int r k)"
    by (auto simp: fun_eq_iff field_int_absent)
  with assms show ?thesis
    using add_keys_known [of "dict_keys r" r f]
    by (simp add: distinct_dict_keys keys_known_iff set_dict_keys values_numeric_iff)
qed

lemma add_contribs_known:
  assumes "\<forall>r\<in>set rs. keys_known r"
  shows "add_contribs rs (totals_record f) =
    (if \<forall>r\<in>set rs. values_numeric r
     then Inr (totals_record (\<lambda>k. f k + (\<Sum>r\<leftarrow>rs. field_int r k)))
     else Inl TypeError)"
  using assms
proof (induction rs arbitrary: f)
  case Nil
  then show ?case by simp
next
  case (Cons r rs)
  then show ?case by (simp add: add_record_known add.assoc)
qed

lemma aggregate_known:
  assumes "\<forall>r\<in>set rs. keys_known r"
  shows "get_aggregate_contributions rs =
    (if \<forall>r\<in>set rs. values_numeric r
     then Inr (totals_record (\<lambda>k. \<Sum>r\<leftarrow>rs. field_int r k))
     else Inl TypeError)"
  using add_contribs_known [OF assms, of "\<lambda>k. 0"]
  by (simp add: get_aggregate_contributions_def zero_record_totals)

lemma sum_list_perm:
  fixes g :: "'a \<Rightarrow> int"
  assumes "mset xs = mset ys"
  shows "sum_list (map g xs) = sum_list (map g ys)"
proof -
  have "sum_list (map g xs) = sum_mset (image_mset g (mset xs))"
    by (metis mset_map sum_mset_sum_list)
  also have "\<dots> = sum_mset (image_mset g (mset ys))" using assms by simp
  also have "\<dots> = sum_list (map g ys)" by (metis mset_map sum_mset_sum_list)
  finally show ?thesis .
qed

lemma list_all_keys_known: "list_all keys_known rs \<longleftrightarrow> (\<forall>r\<in>set rs. keys_known r)"
  by (simp add: list_all_iff)

lemma list_all_values_numeric: "list_all values_numeric rs \<longleftrightarrow> (\<forall>r\<in>set rs. values_numeric r)"
  by (simp add: list_all_iff)

lemma length_known_keys: "length known_keys = 12"
  by (simp add: known_keys_def)

lemma add_keys_unknown:
  assumes "\<exists>k\<in>set ks. k \<notin> set known_keys" and "set ks \<subseteq> dom (map_of contrib)"
  shows "add_keys contrib ks (totals_record f) = Inl KeyError \<or>
    (add_keys contrib ks (totals_record f) = Inl TypeError \<and>
     (\<exists>k\<in>set ks. num_of (the (map_of contrib k)) = None))"
  using assms
proof (induction ks arbitrary: f)
  case Nil
  then show ?case by simp
next
  case (Cons k ks)
  show ?case
  proof (cases "k \<in> set known_keys")
    case False
    then show ?thesis by (simp add: add_key_unknown)
  next
    case True
    from Cons.prems obtain v where v: "map_of contrib k = Some v" by auto
    show ?thesis
    proof (cases "num_of v")
      case None
      with True v show ?thesis by (simp add: add_key_known)
    next
      case (Some n)
      from True Cons.prems have "\<exists>k\<in>set ks. k \<notin> set known_keys" and "set ks \<subseteq> dom (map_of contrib)"
        by auto
      then have ih: "add_keys contrib ks (totals_record (f(k := f k + n))) = Inl KeyError \<or>
          (add_keys contrib ks (totals_record (f(k := f k + n))) = Inl TypeError \<and>
           (\<exists>k\<in>set ks. num_of (the (map_of contrib k)) = None))"
        by (rule Cons.IH)
      have step: "add_keys contrib (k # ks) (totals_record f) =
          add_keys contrib ks (totals_record (f(k := f k + n)))"
        using True v Some by (simp add: add_key_known)
      from ih show ?thesis unfolding step by auto
    qed
  qed
qed

lemma add_contribs_unknown:
  assumes "\<exists>r\<in>set rs. \<not> keys_known r"
  shows "add_contribs rs (totals_record f) = Inl KeyError \<or>
    (add_contribs rs (totals_record f) = Inl TypeError \<and> (\<exists>r\<in>set rs. \<not> values_numeric r))"
  using assms
proof (induction rs arbitrary: f)
  case Nil
  then show ?case by simp
next
  case (Cons r rs)
  show ?case
  proof (cases "keys_known r")
    case False
    then have "\<exists>k\<in>set (dict_keys r). k \<notin> set known_keys"
      by (auto simp: keys_known_iff)
    from add_keys_unknown [OF this, of r f] show ?thesis
      by (auto simp: set_dict_keys values_numeric_iff)
  next
    case True
    with Cons.prems have rest: "\<exists>r\<in>set rs. \<not> keys_known r" by auto
    show ?thesis
    proof (cases "values_numeric r")
      case False
      with True show ?thesis by (simp add: add_record_known)
    next
      case numeric: True
      have step: "add_contribs (r # rs) (totals_record f) =
          add_contribs rs (totals_record (\<lambda>k. f k + field_int r k))"
        using True numeric by (simp add: add_record_known)
      from Cons.IH [OF rest, of "\<lambda>k. f k + field_int r k"] show ?thesis
        unfolding step by auto
    qed
  qed
qed

lemma aggregate_error_ends_display:
  assumes "get_users_from_file fs path map_path = Inr users"
    and "collect_contribs (\<lambda>user. get_contribution_for_user remote user release) users [] [] =
      Inr (unknown, contribs)"
    and "get_aggregate_contributions (map dict_of contribs) = Inl e"
  shows "display_aggregate_stats fs remote path map_path release =
    ([Print (not_found_banner (sort unknown))], Some e)"
  using assms by (simp add: display_aggregate_stats_def)

lemma aggregate_unknown_raises:
  assumes "\<exists>r\<in>set rs. \<not> keys_known r"
  shows "get_aggregate_contributions rs = Inl KeyError \<or>
    get_aggregate_contributions rs = Inl TypeError"
  using add_contribs_unknown [OF assms, of "\<lambda>k. 0"]
  by (auto simp: get_aggregate_contributions_def zero_record_totals)

text \<open>
  Claim C5. For every list of contribution records whose keys all lie in the fixed set of
  known keys, \<^verbatim>\<open>__get_aggregate_contributions\<close> gives the same result on every permutation
  of the list. The equality holds as it stands, also when a value is not a number and
  both orders raise the \<^verbatim>\<open>TypeError\<close>; when all values are numbers the result is a record.
\<close>

theorem aggregate_permutation:
  assumes "mset xs = mset ys" and "list_all keys_known xs"
  shows "get_aggregate_contributions xs = get_aggregate_contributions ys \<and>
    (list_all values_numeric xs \<longrightarrow> (\<exists>agg. get_aggregate_contributions ys = Inr agg))"
proof -
  from assms(1) have s: "set xs = set ys" by (rule mset_eq_setD)
  from assms(2) have kx: "\<forall>r\<in>set xs. keys_known r" by (simp add: list_all_keys_known)
  with s have ky: "\<forall>r\<in>set ys. keys_known r" by simp
  show ?thesis
    using s sum_list_perm [OF assms(1)]
    by (simp add: aggregate_known [OF kx] aggregate_known [OF ky] list_all_values_numeric)
qed

theorem aggregate_permutation_witness:
  "mset [ex_commits, ex_more_commits] = mset [ex_more_commits, ex_commits] \<and>
   list_all keys_known [ex_commits, ex_more_commits] \<and>
   list_all values_numeric [ex_commits, ex_more_commits] \<and>
   get_aggregate_contributions [ex_commits, ex_more_commits] =
     get_aggregate_contributions [ex_more_commits, ex_commits] \<and>
   (\<exists>agg. get_aggregate_contributions [ex_more_commits, ex_commits] = Inr agg)"
proof -
  have p: "mset [ex_commits, ex_more_commits] = mset [ex_more_commits, ex_commits]"
    by simp
  have k: "list_all keys_known [ex_commits, ex_more_commits]"
    by (simp add: keys_known_def dict_keys_def ex_commits_def ex_more_commits_def known_keys_def)
  have n: "list_all values_numeric [ex_commits, ex_more_commits]"
    by (simp add: values_numeric_def dict_values_def dict_keys_def ex_commits_def
        ex_more_commits_def)
  show ?thesis
    using p k n aggregate_permutation [OF p k] by simp
qed

text \<open>
  Claim C6. For every list of records over the known keys with numeric values, the
  aggregate has exactly the 12 known keys, each key's value is the sum over all input
  records of that key's value, a key absent from a record counting 0; the aggregate of
  the empty list is the all-zero record.
\<close>

theorem aggregate_sums:
  assumes "list_all (\<lambda>r. keys_known r \<and> values_numeric r) rs"
  shows "(\<exists>agg. get_aggregate_contributions rs = Inr agg \<and>
            map fst agg = known_keys \<and> length agg = 12 \<and>
            list_all (\<lambda>k. map_of agg k = Some (JInt (\<Sum>r\<leftarrow>rs. field_int r k))) known_keys) \<and>
         get_aggregate_contributions [] = Inr zero_record"
proof -
  from assms have k: "\<forall>r\<in>set rs. keys_known r" and n: "\<forall>r\<in>set rs. values_numeric r"
    by (simp_all add: list_all_iff)
  let ?agg = "totals_record (\<lambda>k. \<Sum>r\<leftarrow>rs. field_int r k)"
  have "get_aggregate_contributions rs = Inr ?agg"
    using aggregate_known [OF k] n by simp
  moreover have "map fst ?agg = known_keys"
    by (simp add: totals_record_def comp_def)
  moreover have "length ?agg = 12"
    by (simp add: totals_record_def length_known_keys)
  moreover have "list_all (\<lambda>k. map_of ?agg k = Some (JInt (\<Sum>r\<leftarrow>rs. field_int r k))) known_keys"
    by (simp add: list_all_iff map_of_totals_record)
  moreover have "get_aggregate_contributions [] = Inr zero_record"
    by (simp add: get_aggregate_contributions_def)
  ultimately show ?thesis by blast
qed

theorem aggregate_sums_witness:
  "list_all (\<lambda>r. keys_known r \<and> values_numeric r) [ex_commits, ex_more_commits] \<and>
   (\<exists>agg. get_aggregate_contributions [ex_commits, ex_more_commits] = Inr agg \<and>
      map fst agg = known_keys \<and>
      map_of agg ''commit_count'' = Some (JInt 5) \<and>
      map_of agg ''loc'' = Some (JInt 15) \<and>
      map_of agg ''marks'' = Some (JInt 0))"
proof -
  have h: "list_all (\<lambda>r. keys_known r \<and> values_numeric r) [ex_commits, ex_more_commits]"
    by (simp add: keys_known_def values_numeric_def dict_values_def dict_keys_def ex_commits_def
        ex_more_commits_def known_keys_def)
  have f: "field_int ex_commits ''commit_count'' = 2" "field_int ex_more_commits ''commit_count'' = 3"
    "field_int ex_commits ''loc'' = 10" "field_int ex_more_commits ''loc'' = 5"
    "field_int ex_commits ''marks'' = 0" "field_int ex_more_commits ''marks'' = 0"
    by (simp_all add: field_int_def ex_commits_def ex_more_commits_def)
  from aggregate_sums [OF h] obtain agg where
    agg: "get_aggregate_contributions [ex_commits, ex_more_commits] = Inr agg"
      "map fst agg = known_keys"
      "list_all (\<lambda>k. map_of agg k =
          Some (JInt (\<Sum>r\<leftarrow>[ex_commits, ex_more_commits]. field_int r k))) known_keys"
    by blast
  from agg(3) f have "map_of agg ''commit_count'' = Some (JInt 5)"
    "map_of agg ''loc'' = Some (JInt 15)" "map_of agg ''marks'' = Some (JInt 0)"
    by (simp_all add: known_keys_def)
  with h agg(1,2) show ?thesis by blast
qed

text \<open>
  Claim C7. If an input record (of numeric values) has a key outside the known keys, the
  aggregation raises a \<^verbatim>\<open>KeyError\<close>: the key is neither ignored nor added. The function
  catches nothing, and its caller ends with the exception
  (lemma \<open>aggregate_error_ends_display\<close>).
\<close>

theorem unknown_key_raises:
  assumes "list_all values_numeric rs" and "\<not> list_all keys_known rs"
  shows "get_aggregate_contributions rs = Inl KeyError"
proof -
  from assms(2) have "\<exists>r\<in>set rs. \<not> keys_known r" by (simp add: list_all_iff)
  from add_contribs_unknown [OF this, of "\<lambda>k. 0"] assms(1) show ?thesis
    by (auto simp: get_aggregate_contributions_def zero_record_totals list_all_iff)
qed

theorem unknown_key_raises_witness:
  "list_all values_numeric [ex_commits, ex_unknown_key] \<and>
   \<not> list_all keys_known [ex_commits, ex_unknown_key] \<and>
   get_aggregate_contributions [ex_commits, ex_unknown_key] = Inl KeyError"
proof -
  have n: "list_all values_numeric [ex_commits, ex_unknown_key]"
    by (simp add: values_numeric_def dict_values_def dict_keys_def ex_commits_def
        ex_unknown_key_def)
  have u: "\<not> list_all keys_known [ex_commits, ex_unknown_key]"
    by (simp add: keys_known_def dict_keys_def ex_unknown_key_def known_keys_def)
  show ?thesis
    using n u unknown_key_raises [OF n u] by simp
qed

subsection \<open>The store: what the call writes\<close>

lemma add_keys_st_frame:
  "length (snd (add_keys_st c ks ret h)) = length h \<and>
   (\<forall>a. a \<noteq> ret \<longrightarrow> snd (add_keys_st c ks ret h) ! a = h ! a)"
  by (induction ks arbitrary: h) (auto split: option.splits sum.splits)

lemma add_contribs_st_frame:
  "length (snd (add_contribs_st cs ret h)) = length h \<and>
   (\<forall>a. a \<noteq> ret \<longrightarrow> snd (add_contribs_st cs ret h) ! a = h ! a)"
proof (induction cs arbitrary: h)
  case Nil
  then show ?case by simp
next
  case (Cons c cs)
  obtain r h' where st: "add_keys_st c (dict_keys (h ! c)) ret h = (r, h')"
    by (cases "add_keys_st c (dict_keys (h ! c)) ret h")
  with add_keys_st_frame [of c "dict_keys (h ! c)" ret h]
  have fr: "length h' = length h" "\<forall>a. a \<noteq> ret \<longrightarrow> h' ! a = h ! a" by simp_all
  show ?case
  proof (cases r)
    case None
    with st fr Cons.IH [of h'] show ?thesis by simp
  next
    case (Some e)
    with st fr show ?thesis by simp
  qed
qed

lemma add_keys_st_refines:
  assumes "c \<noteq> ret" and "ret < length h"
  shows "case add_keys (h ! c) ks (h ! ret) of
           Inl e \<Rightarrow> fst (add_keys_st c ks ret h) = Some e
         | Inr r \<Rightarrow> fst (add_keys_st c ks ret h) = None \<and> snd (add_keys_st c ks ret h) ! ret = r"
  using assms
proof (induction ks arbitrary: h)
  case Nil
  then show ?case by simp
next
  case (Cons k ks)
  show ?case
  proof (cases "add_key (h ! c) k (h ! ret)")
    case (Inl e)
    then show ?thesis
      by (auto simp: add_key_def split: option.splits sum.splits)
  next
    case (Inr acc)
    then obtain a b v where parts: "map_of (h ! ret) k = Some a" "map_of (h ! c) k = Some b"
      "py_add a b = Inr v" "acc = AList.update k v (h ! ret)"
      by (auto simp: add_key_def split: option.splits sum.splits)
    let ?h1 = "h[ret := acc]"
    from Cons.prems have h1: "?h1 ! c = h ! c" "?h1 ! ret = acc" "ret < length ?h1"
      by simp_all
    have st: "add_keys_st c (k # ks) ret h = add_keys_st c ks ret ?h1"
      using parts by simp
    have pure: "add_keys (h ! c) (k # ks) (h ! ret) = add_keys (?h1 ! c) ks (?h1 ! ret)"
      using Inr h1 by simp
    from Cons.IH [OF Cons.prems(1) h1(3)] show ?thesis
      unfolding st pure .
  qed
qed

lemma add_contribs_st_refines:
  assumes "ret \<notin> set cs" and "ret < length h"
  shows "case add_contribs (map ((!) h) cs) (h ! ret) of
           Inl e \<Rightarrow> fst (add_contribs_st cs ret h) = Some e
         | Inr r \<Rightarrow> fst (add_contribs_st cs ret h) = None \<and> snd (add_contribs_st cs ret h) ! ret = r"
  using assms
proof (induction cs arbitrary: h)
  case Nil
  then show ?case by simp
next
  case (Cons c cs)
  from Cons.prems have ne: "c \<noteq> ret" and rest: "ret \<notin> set cs" by auto
  obtain r h' where st: "add_keys_st c (dict_keys (h ! c)) ret h = (r, h')"
    by (cases "add_keys_st c (dict_keys (h ! c)) ret h")
  with add_keys_st_frame [of c "dict_keys (h ! c)" ret h]
  have fr: "length h' = length h" "\<forall>a. a \<noteq> ret \<longrightarrow> h' ! a = h ! a" by simp_all
  from rest fr(2) have same: "map ((!) h') cs = map ((!) h) cs" by auto
  show ?case
  proof (cases "add_keys (h ! c) (dict_keys (h ! c)) (h ! ret)")
    case (Inl e)
    with add_keys_st_refines [OF ne Cons.prems(2), of "dict_keys (h ! c)"] st
    show ?thesis by simp
  next
    case (Inr acc)
    with add_keys_st_refines [OF ne Cons.prems(2), of "dict_keys (h ! c)"] st
    have r: "r = None" and acc: "h' ! ret = acc" by simp_all
    from Cons.prems(2) fr(1) have "ret < length h'" by simp
    from Cons.IH [OF rest this]
    have ih: "case add_contribs (map ((!) h) cs) acc of
            Inl e \<Rightarrow> fst (add_contribs_st cs ret h') = Some e
          | Inr r \<Rightarrow> fst (add_contribs_st cs ret h') = None \<and>
              snd (add_contribs_st cs ret h') ! ret = r"
      by (simp add: same acc)
    have stc: "add_contribs_st (c # cs) ret h = add_contribs_st cs ret h'"
      using st r by simp
    have pure: "add_contribs (map ((!) h) (c # cs)) (h ! ret) = add_contribs (map ((!) h) cs) acc"
      using Inr by simp
    show ?thesis unfolding stc pure by (rule ih)
  qed
qed

text \<open>
  Claim C9. \<^verbatim>\<open>__get_aggregate_contributions\<close> does not mutate its inputs: in the store
  after the call, every dictionary that \<open>contrib_list\<close> refers to is what it was before
  the call, whether the call returns or raises. The call writes only to the dictionary it
  allocated, which holds the result that the function on values computes.
\<close>

theorem aggregate_keeps_inputs:
  assumes "list_all (\<lambda>c. c < length h) contrib_list"
  shows "map ((!) (snd (get_aggregate_contributions_st contrib_list h))) contrib_list =
      map ((!) h) contrib_list \<and>
    (case get_aggregate_contributions (map ((!) h) contrib_list) of
       Inl e \<Rightarrow> fst (get_aggregate_contributions_st contrib_list h) = Inl e
     | Inr agg \<Rightarrow>
         fst (get_aggregate_contributions_st contrib_list h) = Inr (length h) \<and>
         snd (get_aggregate_contributions_st contrib_list h) ! length h = agg)"
proof -
  let ?h0 = "h @ [zero_record]"
  from assms have inb: "\<forall>c\<in>set contrib_list. c < length h" by (simp add: list_all_iff)
  then have fresh: "length h \<notin> set contrib_list" by auto
  obtain r h' where st: "add_contribs_st contrib_list (length h) ?h0 = (r, h')"
    by (cases "add_contribs_st contrib_list (length h) ?h0")
  with add_contribs_st_frame [of contrib_list "length h" ?h0]
  have fr: "\<forall>a. a \<noteq> length h \<longrightarrow> h' ! a = ?h0 ! a" by simp
  have old: "map ((!) ?h0) contrib_list = map ((!) h) contrib_list"
    using inb by (simp add: nth_append)
  from fresh have "\<forall>c\<in>set contrib_list. c \<noteq> length h" by blast
  with fr have "\<forall>c\<in>set contrib_list. h' ! c = ?h0 ! c" by blast
  then have "map ((!) h') contrib_list = map ((!) ?h0) contrib_list" by simp
  with old have keep: "map ((!) h') contrib_list = map ((!) h) contrib_list" by simp
  have res: "get_aggregate_contributions_st contrib_list h =
      (case r of Some e \<Rightarrow> (Inl e, h') | None \<Rightarrow> (Inr (length h), h'))"
    using st by (simp add: get_aggregate_contributions_st_def new_dict_def split: option.splits)
  have "case add_contribs (map ((!) ?h0) contrib_list) (?h0 ! length h) of
          Inl e \<Rightarrow> r = Some e
        | Inr agg \<Rightarrow> r = None \<and> h' ! length h = agg"
    using add_contribs_st_refines [OF fresh, of ?h0] st by (auto split: sum.splits)
  then have "case get_aggregate_contributions (map ((!) h) contrib_list) of
          Inl e \<Rightarrow> r = Some e
        | Inr agg \<Rightarrow> r = None \<and> h' ! length h = agg"
    by (simp add: old get_aggregate_contributions_def)
  with keep res show ?thesis by (auto split: sum.splits option.splits)
qed

theorem aggregate_keeps_inputs_witness:
  "list_all (\<lambda>c. c < length ex_heap) [0, 1, 0] \<and>
   map ((!) (snd (get_aggregate_contributions_st [0, 1, 0] ex_heap))) [0, 1, 0] =
     map ((!) ex_heap) [0, 1, 0] \<and>
   fst (get_aggregate_contributions_st [0, 1, 0] ex_heap) = Inr 2 \<and>
   map_of (snd (get_aggregate_contributions_st [0, 1, 0] ex_heap) ! 2) ''loc'' = Some (JInt 25)"
proof -
  have h: "list_all (\<lambda>c. c < length ex_heap) [0, 1, 0]"
    by (simp add: ex_heap_def)
  have agg: "get_aggregate_contributions (map ((!) ex_heap) [0, 1, 0]) =
      Inr (AList.update ''commit_count'' (JInt 7) (AList.update ''loc'' (JInt 25) zero_record))"
    by code_simp
  have len: "length ex_heap = 2" by (simp add: ex_heap_def)
  show ?thesis
    using h aggregate_keeps_inputs [OF h] agg len by (simp add: zero_record_def)
qed

section \<open>Properties of the fetch\<close>

lemma py_sum_from_numeric:
  "list_all (\<lambda>v. num_of v \<noteq> None) vs \<Longrightarrow>
    py_sum_from (JInt a) vs = Inr (JInt (a + (\<Sum>v\<leftarrow>vs. the (num_of v))))"
  by (induction vs arbitrary: a) (auto simp: py_add_int)

lemma sum_dict_values:
  assumes "values_numeric d"
  shows "(\<Sum>v\<leftarrow>dict_values d. the (num_of v)) = (\<Sum>k\<leftarrow>dict_keys d. field_int d k)"
proof -
  have "the (num_of (the (map_of d k))) = field_int d k" if "k \<in> set (dict_keys d)" for k
  proof -
    from that obtain v where v: "map_of d k = Some v" by (auto simp: set_dict_keys)
    with that assms obtain n where "num_of v = Some n"
      by (auto simp: values_numeric_iff)
    with v show ?thesis by (simp add: field_int_def)
  qed
  then show ?thesis
    by (simp add: dict_values_def comp_def cong: map_cong)
qed

lemma py_sum_values:
  "values_numeric d \<Longrightarrow> py_sum (dict_values d) = Inr (JInt (\<Sum>k\<leftarrow>dict_keys d. field_int d k))"
  by (simp add: py_sum_def py_sum_from_numeric values_numeric_def sum_dict_values)

text \<open>
  Claim C4. For every successful fetch whose \<^verbatim>\<open>contribution\<close> object is not empty and
  has a \<^verbatim>\<open>marks\<close> field that maps vote values to counts, the returned record is the raw
  object with \<^verbatim>\<open>marks\<close> replaced by the one integer that is the sum of the counts: the
  keys and their order are the raw object's, and every other field has its raw value.
  The witness is the spec's example, marks \<^verbatim>\<open>{"-1": 2, "1": 5}\<close> becoming 7.
\<close>

theorem marks_collapsed:
  assumes "remote (contrib_url user release) = Parsed body"
    and "py_getitem body ''contribution'' = Inr (JObj raw)"
    and "raw \<noteq> []"
    and "map_of raw ''marks'' = Some (JObj marks)"
    and "values_numeric marks"
  shows "\<exists>rec. get_contribution_for_user remote user release = Inr (JObj rec) \<and>
    rec = AList.update ''marks'' (JInt (\<Sum>k\<leftarrow>dict_keys marks. field_int marks k)) raw \<and>
    map fst rec = map fst raw \<and>
    map_of rec ''marks'' = Some (JInt (\<Sum>k\<leftarrow>dict_keys marks. field_int marks k)) \<and>
    (\<forall>k. k \<noteq> ''marks'' \<longrightarrow> map_of rec k = map_of raw k)"
proof -
  let ?rec = "AList.update ''marks'' (JInt (\<Sum>k\<leftarrow>dict_keys marks. field_int marks k)) raw"
  have "get_contribution_for_user remote user release = Inr (JObj ?rec)"
    using assms by (simp add: get_contribution_for_user_def py_sum_values)
  moreover from assms(4) have "''marks'' \<in> fst ` set raw"
    by (metis domI dom_map_of_conv_image_fst)
  then have "map fst ?rec = map fst raw"
    by (simp add: update_keys)
  moreover have "map_of ?rec ''marks'' = Some (JInt (\<Sum>k\<leftarrow>dict_keys marks. field_int marks k))"
    by (simp add: update_conv')
  moreover have "\<forall>k. k \<noteq> ''marks'' \<longrightarrow> map_of ?rec k = map_of raw k"
    by (simp add: update_conv')
  ultimately show ?thesis by blast
qed

theorem marks_collapsed_witness:
  "ex_remote_jdoe (contrib_url ''jdoe'' None) = Parsed (JObj [(''contribution'', JObj ex_raw)]) \<and>
   py_getitem (JObj [(''contribution'', JObj ex_raw)]) ''contribution'' = Inr (JObj ex_raw) \<and>
   ex_raw \<noteq> [] \<and>
   map_of ex_raw ''marks'' = Some (JObj ex_marks) \<and>
   values_numeric ex_marks \<and>
   get_contribution_for_user ex_remote_jdoe ''jdoe'' None =
     Inr (JObj [(''commit_count'', JInt 4), (''marks'', JInt 7), (''loc'', JInt 100)])"
proof -
  have h1: "ex_remote_jdoe (contrib_url ''jdoe'' None) = Parsed (JObj [(''contribution'', JObj ex_raw)])"
    by (simp add: ex_remote_jdoe_def)
  have h2: "py_getitem (JObj [(''contribution'', JObj ex_raw)]) ''contribution'' = Inr (JObj ex_raw)"
    by simp
  have h3: "ex_raw \<noteq> []" by (simp add: ex_raw_def)
  have h4: "map_of ex_raw ''marks'' = Some (JObj ex_marks)" by (simp add: ex_raw_def)
  have h5: "values_numeric ex_marks"
    by (simp add: values_numeric_def dict_values_def dict_keys_def ex_marks_def)
  have s: "(\<Sum>k\<leftarrow>dict_keys ex_marks. field_int ex_marks k) = 7"
    by (simp add: dict_keys_def field_int_def ex_marks_def)
  have u: "AList.update ''marks'' (JInt 7) ex_raw =
      [(''commit_count'', JInt 4), (''marks'', JInt 7), (''loc'', JInt 100)]"
    by (simp add: ex_raw_def)
  show ?thesis
    using h1 h2 h3 h4 h5
      marks_collapsed [of ex_remote_jdoe "''jdoe''" None "JObj [(''contribution'', JObj ex_raw)]"
        ex_raw ex_marks, OF h1 h2 h3 h4 h5]
    by (simp add: s u)
qed

text \<open>
  Claim C2, amended. For every identifier, if the statement inside the \<^verbatim>\<open>try\<close> raises
  (a network error, a body that is not JSON, a decoded response without the field
  \<^verbatim>\<open>contribution\<close>), \<^verbatim>\<open>__get_contribution_for_user\<close> returns \<^verbatim>\<open>None\<close> and raises
  nothing. The guarantee does not reach the shape of a non-empty \<^verbatim>\<open>contribution\<close>
  object: the collapse of \<^verbatim>\<open>marks\<close> runs after the \<^verbatim>\<open>try\<close>.
\<close>

theorem fetch_failure_is_absent:
  assumes "fetch_raises (remote (contrib_url user release))"
  shows "get_contribution_for_user remote user release = Inr JNull"
  using assms
  by (cases "remote (contrib_url user release)")
    (auto simp: get_contribution_for_user_def split: sum.splits)

theorem fetch_failure_is_absent_witness:
  "fetch_raises (ex_remote_no_field (contrib_url ''jdoe'' (Some ''kilo''))) \<and>
   get_contribution_for_user ex_remote_no_field ''jdoe'' (Some ''kilo'') = Inr JNull"
proof -
  have h: "fetch_raises (ex_remote_no_field (contrib_url ''jdoe'' (Some ''kilo'')))"
    by (simp add: ex_remote_no_field_def)
  show ?thesis
    using h fetch_failure_is_absent [of ex_remote_no_field "''jdoe''" "Some ''kilo''", OF h] by simp
qed

text \<open>
  Claim C2 as stated fails: for a response whose non-empty \<^verbatim>\<open>contribution\<close> object has
  no \<^verbatim>\<open>marks\<close> field, the function raises a \<^verbatim>\<open>KeyError\<close> where the claim says it
  returns absent.
\<close>

theorem missing_marks_raises_counterexample:
  "get_contribution_for_user ex_remote_no_marks ''jdoe'' None = Inl KeyError"
  by (simp add: get_contribution_for_user_def ex_remote_no_marks_def)

lemma fetch_network_error:
  "get_contribution_for_user ex_remote_down ''jdoe'' None = Inr JNull"
  by (simp add: get_contribution_for_user_def ex_remote_down_def)

section \<open>Properties of the display\<close>

lemma collect_contribs_result:
  "collect_contribs f us unknown contribs = Inr (unknown', contribs') \<Longrightarrow>
    unknown' = unknown @ filter (\<lambda>u. \<not> truthy (projr (f u))) us \<and>
    contribs' = contribs @ filter truthy (map (\<lambda>u. projr (f u)) us)"
proof (induction us arbitrary: unknown contribs)
  case Nil
  then show ?case by simp
next
  case (Cons u us)
  from Cons.prems obtain c where c: "f u = Inr c"
    by (cases "f u") simp_all
  show ?case
  proof (cases "truthy c")
    case True
    with c Cons.prems
    have "collect_contribs f us unknown (contribs @ [c]) = Inr (unknown', contribs')" by simp
    from Cons.IH [OF this] c True show ?thesis by simp
  next
    case False
    with c Cons.prems
    have "collect_contribs f us (unknown @ [u]) contribs = Inr (unknown', contribs')" by simp
    from Cons.IH [OF this] c False show ?thesis by simp
  qed
qed

lemma collect_contribs_succeeds:
  "collect_contribs f us unknown contribs = Inr res \<Longrightarrow> \<forall>u\<in>set us. \<exists>c. f u = Inr c"
  by (induction us arbitrary: unknown contribs) (auto split: sum.splits if_splits)

text \<open>
  Claim C10. If the response decodes and its \<^verbatim>\<open>contribution\<close> field is the empty
  object, the fetch returns that empty record (no lookup of \<^verbatim>\<open>marks\<close> is made, which
  would raise); the single-user display prints the no-data message; and in aggregate mode
  the loop puts the user on the list of users not found and no record for it among the
  collected contributions.
\<close>

theorem empty_contribution_is_no_data:
  assumes "remote (contrib_url user release) = Parsed body"
    and "py_getitem body ''contribution'' = Inr (JObj [])"
  shows "get_contribution_for_user remote user release = Inr (JObj []) \<and>
    display_user_stats remote user release = ([Print no_data_message], None) \<and>
    (\<forall>users unknown contribs.
       user \<in> set users \<and>
       collect_contribs (\<lambda>u. get_contribution_for_user remote u release) users [] [] =
         Inr (unknown, contribs) \<longrightarrow>
       user \<in> set unknown \<and> JObj [] \<notin> set contribs)"
proof -
  have fetch: "get_contribution_for_user remote user release = Inr (JObj [])"
    using assms by (simp add: get_contribution_for_user_def)
  then have "display_user_stats remote user release = ([Print no_data_message], None)"
    by (simp add: display_user_stats_def display_stats_def)
  moreover have "user \<in> set unknown \<and> JObj [] \<notin> set contribs"
    if "user \<in> set users"
      and "collect_contribs (\<lambda>u. get_contribution_for_user remote u release) users [] [] =
        Inr (unknown, contribs)"
    for users unknown contribs
    using collect_contribs_result [OF that(2)] that(1) fetch by auto
  ultimately show ?thesis using fetch by blast
qed

theorem empty_contribution_is_no_data_witness:
  "ex_remote_empty (contrib_url ''jdoe'' None) = Parsed (JObj [(''contribution'', JObj [])]) \<and>
   py_getitem (JObj [(''contribution'', JObj [])]) ''contribution'' = Inr (JObj []) \<and>
   get_contribution_for_user ex_remote_empty ''jdoe'' None = Inr (JObj []) \<and>
   display_user_stats ex_remote_empty ''jdoe'' None = ([Print no_data_message], None) \<and>
   collect_contribs (\<lambda>u. get_contribution_for_user ex_remote_empty u None) [''jdoe''] [] [] =
     Inr ([''jdoe''], [])"
proof -
  have h1: "ex_remote_empty (contrib_url ''jdoe'' None) = Parsed (JObj [(''contribution'', JObj [])])"
    by (simp add: ex_remote_empty_def)
  have h2: "py_getitem (JObj [(''contribution'', JObj [])]) ''contribution'' = Inr (JObj [])"
    by simp
  show ?thesis
    using h1 h2
      empty_contribution_is_no_data [of ex_remote_empty "''jdoe''" None
        "JObj [(''contribution'', JObj [])]", OF h1 h2]
    by simp
qed

lemma add_key_keys:
  "add_key contrib k ret = Inr ret' \<Longrightarrow> map fst ret' = map fst ret"
proof -
  assume a: "add_key contrib k ret = Inr ret'"
  then obtain x v where x: "map_of ret k = Some x" and r: "ret' = AList.update k v ret"
    by (auto simp: add_key_def split: option.splits sum.splits)
  from x have "k \<in> fst ` set ret"
    by (metis domI dom_map_of_conv_image_fst)
  with r show ?thesis by (simp add: update_keys)
qed

lemma add_keys_keys:
  "add_keys contrib ks ret = Inr ret' \<Longrightarrow> map fst ret' = map fst ret"
proof (induction ks arbitrary: ret)
  case Nil
  then show ?case by simp
next
  case (Cons k ks)
  then obtain r where r: "add_key contrib k ret = Inr r" and rest: "add_keys contrib ks r = Inr ret'"
    by (auto split: sum.splits)
  from Cons.IH [OF rest] add_key_keys [OF r] show ?case by simp
qed

lemma add_contribs_keys:
  "add_contribs rs ret = Inr ret' \<Longrightarrow> map fst ret' = map fst ret"
proof (induction rs arbitrary: ret)
  case Nil
  then show ?case by simp
next
  case (Cons c rs)
  then obtain r where r: "add_keys c (dict_keys c) ret = Inr r" and rest: "add_contribs rs r = Inr ret'"
    by (auto split: sum.splits)
  from Cons.IH [OF rest] add_keys_keys [OF r] show ?case by simp
qed

lemma aggregate_keys:
  "get_aggregate_contributions rs = Inr agg \<Longrightarrow> map fst agg = known_keys"
  using add_contribs_keys [of rs zero_record agg]
  by (simp add: get_aggregate_contributions_def zero_record_def known_keys_def)

lemma aggregate_truthy:
  "get_aggregate_contributions rs = Inr agg \<Longrightarrow> truthy (JObj agg)"
  using aggregate_keys [of rs agg] by (auto simp: known_keys_def)

lemma fetch_truthy_is_dict:
  assumes "get_contribution_for_user remote user release = Inr c" and "truthy c"
  shows "\<exists>d. c = JObj d"
proof -
  let ?ret = "case remote (contrib_url user release) of
      Parsed body \<Rightarrow> (case py_getitem body ''contribution'' of Inl e \<Rightarrow> JNull | Inr c \<Rightarrow> c)
    | _ \<Rightarrow> JNull"
  show ?thesis
  proof (cases "truthy ?ret")
    case False
    with assms show ?thesis by (simp add: get_contribution_for_user_def Let_def)
  next
    case True
    with assms(1) obtain v where "py_setitem ?ret ''marks'' v = Inr c"
      by (auto simp: get_contribution_for_user_def Let_def split: sum.splits)
    then show ?thesis by (cases ?ret) auto
  qed
qed

lemma collected_are_dicts:
  assumes "collect_contribs (\<lambda>u. get_contribution_for_user remote u release) users [] [] =
    Inr (unknown, contribs)"
  shows "list_all (\<lambda>c. JObj (dict_of c) = c) contribs"
proof -
  have "JObj (dict_of c) = c" if "c \<in> set contribs" for c
  proof -
    from collect_contribs_result [OF assms] that
    obtain u where "u \<in> set users" and c: "projr (get_contribution_for_user remote u release) = c"
      and t: "truthy c" by auto
    have "get_contribution_for_user remote u release = Inr c"
    proof (cases "get_contribution_for_user remote u release")
      case (Inl e)
      have "\<forall>u\<in>set users. \<exists>c. get_contribution_for_user remote u release = Inr c"
        using assms collect_contribs_succeeds by blast
      with \<open>u \<in> set users\<close> Inl show ?thesis by auto
    next
      case (Inr x)
      with c show ?thesis by simp
    qed
    from fetch_truthy_is_dict [OF this t] show ?thesis by auto
  qed
  then show ?thesis by (simp add: list_all_iff)
qed

lemma collect_all_unknown:
  "list_all (\<lambda>u. case f u of Inl e \<Rightarrow> False | Inr c \<Rightarrow> \<not> truthy c) us \<Longrightarrow>
    collect_contribs f us unknown contribs = Inr (unknown @ us, contribs)"
  by (induction us arbitrary: unknown) (auto split: sum.splits)

lemma banner_is_not_no_data: "not_found_banner unknown \<noteq> no_data_message"
  by (simp add: not_found_banner_def dashes_def no_data_message_def)

lemma aggregate_never_no_data:
  "Print no_data_message \<notin> set (fst (display_aggregate_stats fs remote path map_path release))"
proof (cases "get_users_from_file fs path map_path")
  case (Inl e)
  then show ?thesis by (simp add: display_aggregate_stats_def)
next
  case users: (Inr users)
  show ?thesis
  proof (cases "collect_contribs (\<lambda>user. get_contribution_for_user remote user release) users [] []")
    case (Inl e)
    with users show ?thesis by (simp add: display_aggregate_stats_def)
  next
    case (Inr res)
    obtain unknown contribs where res: "res = (unknown, contribs)" by (cases res)
    show ?thesis
    proof (cases "get_aggregate_contributions (map dict_of contribs)")
      case (Inl e)
      with users Inr res show ?thesis
        using banner_is_not_no_data [of "sort unknown"]
        by (simp add: display_aggregate_stats_def)
    next
      case agg: (Inr agg)
      from aggregate_truthy [OF agg] have "agg \<noteq> []" by simp
      with users Inr res agg show ?thesis
        using banner_is_not_no_data [of "sort unknown"]
        by (simp add: display_aggregate_stats_def display_stats_def no_data_message_def)
    qed
  qed
qed

text \<open>
  Claim C1, amended. In aggregate mode, when every resolved identifier yields no data
  (the list of found records is empty), the reporter prints the banner of the users not
  found, then \<^verbatim>\<open>Contributions:\<close> and the all-zero aggregate record. The no-data message
  is not printed in aggregate mode, for any input: the aggregate always has its 12 keys
  and so is never empty.
\<close>

theorem aggregate_of_nothing_prints_zero_record:
  assumes "get_users_from_file fs path map_path = Inr users"
    and "list_all (\<lambda>u. case get_contribution_for_user remote u release of
                          Inl e \<Rightarrow> False | Inr c \<Rightarrow> \<not> truthy c) users"
  shows "display_aggregate_stats fs remote path map_path release =
      ([Print (not_found_banner (sort users)), Print ''Contributions:'',
        PrintJson (JObj zero_record)], None) \<and>
    Print no_data_message \<notin> set (fst (display_aggregate_stats fs remote path map_path release))"
proof -
  have "collect_contribs (\<lambda>user. get_contribution_for_user remote user release) users [] [] =
      Inr (users, [])"
    using collect_all_unknown [OF assms(2), of "[]" "[]"] by simp
  with assms(1) have "display_aggregate_stats fs remote path map_path release =
      ([Print (not_found_banner (sort users)), Print ''Contributions:'',
        PrintJson (JObj zero_record)], None)"
    by (simp add: display_aggregate_stats_def get_aggregate_contributions_def display_stats_def
        zero_record_def)
  with aggregate_never_no_data [of fs remote path map_path release] show ?thesis by simp
qed

theorem aggregate_of_nothing_prints_zero_record_witness:
  "get_users_from_file ex_files ''emails.txt'' (Some ''map.txt'') = Inr [''b'', ''alice-id''] \<and>
   list_all (\<lambda>u. case get_contribution_for_user ex_remote_empty u None of
                    Inl e \<Rightarrow> False | Inr c \<Rightarrow> \<not> truthy c) [''b'', ''alice-id''] \<and>
   display_aggregate_stats ex_files ex_remote_empty ''emails.txt'' (Some ''map.txt'') None =
     ([Print (not_found_banner [''alice-id'', ''b'']), Print ''Contributions:'',
       PrintJson (JObj zero_record)], None)"
proof -
  have h1: "get_users_from_file ex_files ''emails.txt'' (Some ''map.txt'') = Inr [''b'', ''alice-id'']"
    by code_simp
  have h2: "list_all (\<lambda>u. case get_contribution_for_user ex_remote_empty u None of
                    Inl e \<Rightarrow> False | Inr c \<Rightarrow> \<not> truthy c) [''b'', ''alice-id'']"
    by (simp add: get_contribution_for_user_def ex_remote_empty_def)
  have s: "sort [''b'', ''alice-id''] = [''alice-id'', ''b'']"
    by code_simp
  show ?thesis
    using h1 h2
      aggregate_of_nothing_prints_zero_record [of ex_files "''emails.txt''" "Some ''map.txt''"
        "[''b'', ''alice-id'']" ex_remote_empty None, OF h1 h2]
    by (simp add: s)
qed

text \<open>
  Claim C1 as stated fails: with two users in the file and a remote that answers no
  request, the found set is empty, and the output after the banner is the header and the
  zeroed record, not the no-data message.
\<close>

theorem aggregate_no_data_counterexample:
  "display_aggregate_stats ex_files ex_remote_down ''emails.txt'' None None =
     ([Print (not_found_banner [''a'', ''b'']), Print ''Contributions:'',
       PrintJson (JObj zero_record)], None) \<and>
   Print no_data_message \<notin>
     set (fst (display_aggregate_stats ex_files ex_remote_down ''emails.txt'' None None))"
  by code_simp

section \<open>Properties of the users read from the file\<close>

lemma split_no_sep: "sep \<notin> set e \<Longrightarrow> py_split sep e = [e]"
  by (induction e) auto

lemma split_append:
  "sep \<notin> set e \<Longrightarrow> py_split sep (e @ sep # rest) = e # py_split sep rest"
  by (induction e) auto

lemma split_join:
  "xs \<noteq> [] \<Longrightarrow> \<forall>x\<in>set xs. sep \<notin> set x \<Longrightarrow> py_split sep (py_join [sep] xs) = xs"
proof (induction "[sep]" xs rule: py_join.induct)
  case 1
  then show ?case by simp
next
  case (2 x)
  then show ?case by (simp add: split_no_sep)
next
  case (3 x y ys)
  then show ?case by (simp add: split_append)
qed

lemma email_user_at:
  assumes "CHR ''@'' \<in> set e"
  shows "email_user e = py_strip (takeWhile (\<lambda>c. c \<noteq> CHR ''@'') e)"
proof -
  have "take (length (takeWhile (\<lambda>c. c \<noteq> CHR ''@'') e)) e = takeWhile (\<lambda>c. c \<noteq> CHR ''@'') e"
    by (metis append_eq_conv_conj takeWhile_dropWhile_id)
  with assms show ?thesis
    by (simp add: email_user_def py_find_def py_slice_to_def)
qed

lemma email_user_no_at:
  assumes "CHR ''@'' \<notin> set e"
  shows "email_user e = py_strip (butlast e)"
  using assms
  by (simp add: email_user_def py_find_def py_slice_to_def butlast_conv_take nat_diff_distrib')

lemma get_tokens_lists:
  "file_lists fs path items \<Longrightarrow> get_tokens fs path = Inr (Some items)"
  using split_join [of items "CHR '',''"]
  by (auto simp: file_lists_def get_tokens_def list_all_iff split: option.splits)

lemma user_map_from_pairs:
  assumes "list_all (\<lambda>(p, c). CHR '':'' \<notin> set p \<and> CHR '':'' \<notin> set c) pairs"
  shows "user_map_from (map (py_split CHR '':'') (map (\<lambda>(p, c). p @ '':'' @ c) pairs)) m =
    Inr (fold (\<lambda>(p, c). AList.update (py_strip p) (py_strip c)) pairs m)"
  using assms
proof (induction pairs arbitrary: m)
  case Nil
  then show ?case by simp
next
  case (Cons pc pairs)
  obtain p c where pc: "pc = (p, c)" by (cases pc)
  with Cons.prems have "py_split CHR '':'' (p @ '':'' @ c) = [p, c]"
    by (simp add: split_append split_no_sep)
  with Cons pc show ?case by simp
qed

lemma map_of_fold_update:
  assumes "distinct (map (\<lambda>(p, c). f p) pairs)"
  shows "map_of (fold (\<lambda>(p, c). AList.update (f p) (g c)) pairs m) =
    map_of m ++ map_of (map (\<lambda>(p, c). (f p, g c)) pairs)"
  using assms
proof (induction pairs arbitrary: m)
  case Nil
  then show ?case by simp
next
  case (Cons pc pairs)
  obtain p c where pc: "pc = (p, c)" by (cases pc)
  from Cons.prems pc have d: "distinct (map (\<lambda>(p, c). f p) pairs)"
    and fresh: "f p \<notin> fst ` set (map (\<lambda>(p, c). (f p, g c)) pairs)"
    by (auto simp: image_iff)
  from fresh have none: "map_of (map (\<lambda>(p, c). (f p, g c)) pairs) (f p) = None"
    by (simp add: map_of_eq_None_iff)
  have step: "fold (\<lambda>(p, c). AList.update (f p) (g c)) (pc # pairs) m =
      fold (\<lambda>(p, c). AList.update (f p) (g c)) pairs (AList.update (f p) (g c) m)"
    using pc by simp
  have "map_of (fold (\<lambda>(p, c). AList.update (f p) (g c)) (pc # pairs) m) =
      (map_of m)(f p \<mapsto> g c) ++ map_of (map (\<lambda>(p, c). (f p, g c)) pairs)"
    unfolding step Cons.IH [OF d] update_conv' ..
  also have "\<dots> = map_of m ++ map_of (map (\<lambda>(p, c). (f p, g c)) (pc # pairs))"
    using none pc by (auto simp: fun_eq_iff map_add_def split: option.splits)
  finally show ?case .
qed

lemma get_eff_user_alias:
  assumes "alias_file_lists fs map_path pairs"
  shows "get_eff_user fs u map_path = Inr (alias_of pairs u)"
proof (cases "map_path = None \<or> map_path = Some []")
  case True
  with assms have "pairs = []" by (auto simp: alias_file_lists_def)
  with True show ?thesis by (auto simp: get_eff_user_def alias_of_def)
next
  case False
  then obtain mp where mp: "map_path = Some mp" "mp \<noteq> []" by auto
  with assms have fl: "file_lists fs mp (map (\<lambda>(p, c). p @ '':'' @ c) pairs)"
    and nc: "list_all (\<lambda>(p, c). CHR '':'' \<notin> set p \<and> CHR '':'' \<notin> set c) pairs"
    and d: "distinct (map (\<lambda>(p, c). py_strip p) pairs)"
    by (simp_all add: alias_file_lists_def)
  from get_tokens_lists [OF fl] mp user_map_from_pairs [OF nc, of "[]"]
    map_of_fold_update [OF d, of py_strip "[]"]
  show ?thesis
    by (simp add: get_eff_user_def alias_of_def)
qed

lemma eff_users_alias:
  assumes "alias_file_lists fs map_path pairs"
  shows "eff_users fs map_path emails = Inr (map (\<lambda>e. alias_of pairs (email_user e)) emails)"
  by (induction emails) (simp_all add: get_eff_user_alias [OF assms])

text \<open>
  Claim C8. For every email-list file whose first line is a comma-delimited list of
  addresses (each with an \<^verbatim>\<open>@\<close>), and an alias mapping given by the alias file (or none),
  the resolver returns a duplicate-free list whose elements are exactly the addresses'
  trimmed prefixes before the first \<^verbatim>\<open>@\<close>, each replaced by its canonical id when the
  mapping has the prefix and kept otherwise. The witness is the spec's example.
\<close>

theorem users_from_file_resolved:
  assumes "file_lists fs path emails"
    and "list_all (\<lambda>e. CHR ''@'' \<in> set e) emails"
    and "alias_file_lists fs map_path pairs"
  shows "\<exists>users. get_users_from_file fs path map_path = Inr users \<and> distinct users \<and>
    set users = (\<lambda>e. alias_of pairs (py_strip (takeWhile (\<lambda>c. c \<noteq> CHR ''@'') e))) ` set emails"
proof -
  let ?users = "remdups (map (\<lambda>e. alias_of pairs (email_user e)) emails)"
  have "get_users_from_file fs path map_path = Inr ?users"
    using get_tokens_lists [OF assms(1)] eff_users_alias [OF assms(3)]
    by (simp add: get_users_from_file_def)
  moreover have "distinct ?users" by simp
  moreover have "set ?users =
      (\<lambda>e. alias_of pairs (py_strip (takeWhile (\<lambda>c. c \<noteq> CHR ''@'') e))) ` set emails"
    using assms(2) by (auto simp: list_all_iff email_user_at)
  ultimately show ?thesis by blast
qed

theorem users_from_file_resolved_witness:
  "file_lists ex_files ''emails.txt'' [''a@x.com'', ''b@y.com'', ''a@x.com''] \<and>
   list_all (\<lambda>e. CHR ''@'' \<in> set e) [''a@x.com'', ''b@y.com'', ''a@x.com''] \<and>
   alias_file_lists ex_files (Some ''map.txt'') [(''a'', ''alice-id'')] \<and>
   (\<exists>users. get_users_from_file ex_files ''emails.txt'' (Some ''map.txt'') = Inr users \<and>
      distinct users \<and> set users = {''alice-id'', ''b''})"
proof -
  have h1: "file_lists ex_files ''emails.txt'' [''a@x.com'', ''b@y.com'', ''a@x.com'']"
    by (simp add: file_lists_def ex_files_def first_line_def)
  have h2: "list_all (\<lambda>e. CHR ''@'' \<in> set e) [''a@x.com'', ''b@y.com'', ''a@x.com'']"
    by simp
  have h3: "alias_file_lists ex_files (Some ''map.txt'') [(''a'', ''alice-id'')]"
    by (simp add: alias_file_lists_def file_lists_def ex_files_def first_line_def py_strip_def
        is_space_def)
  have r: "(\<lambda>e. alias_of [(''a'', ''alice-id'')] (py_strip (takeWhile (\<lambda>c. c \<noteq> CHR ''@'') e))) `
      set [''a@x.com'', ''b@y.com'', ''a@x.com''] = {''alice-id'', ''b''}"
    by (auto simp: alias_of_def py_strip_def is_space_def)
  show ?thesis
    using h1 h2 h3 users_from_file_resolved [OF h1 h2 h3, unfolded r] by blast
qed

text \<open>
  Claim C3 says that an entry with no \<^verbatim>\<open>@\<close> gives the whole trimmed entry. The code
  does not: \<^verbatim>\<open>find\<close> returns -1 and the slice \<^verbatim>\<open>email[0:-1]\<close> drops the entry's last
  character, so the entry \<^verbatim>\<open>alice\<close> of the file \<^verbatim>\<open>alice,bob@x.com\<close> becomes the user
  \<^verbatim>\<open>alic\<close>.
\<close>

theorem no_at_sign_drops_last_character:
  "email_user ''alice'' = ''alic'' \<and>
   get_users_from_file ex_files ''mixed.txt'' None = Inr [''alic'', ''bob'']"
  by code_simp

lemma no_alias_example:
  "get_users_from_file ex_files ''emails.txt'' None = Inr [''b'', ''a'']"
  by code_simp

end
